theory Spec2Isabelle
  imports Complex_Main
begin

section \<open>The storage file \<open>cache.db\<close>\<close>

text \<open>
  \<open>app.py\<close> keeps two SQLite tables in the file \<open>DB_PATH = 'cache.db'\<close>:
  \<^verbatim>\<open>CREATE TABLE cache (prompt TEXT PRIMARY KEY, response TEXT)\<close> and
  \<^verbatim>\<open>CREATE TABLE tech (name TEXT, description TEXT, url TEXT)\<close>.
  The primary key makes \<open>cache\<close> a finite map from prompts to responses; \<open>tech\<close> has no
  key, so it is the list of its rows in insertion order. A table that was never created is
  \<open>None\<close>. \<open>read_only\<close> says that the file cannot be written (SQLite then refuses every
  writing statement). The file itself may be missing: \<open>filesystem\<close> is what is stored
  under \<open>DB_PATH\<close>.
\<close>

type_synonym tech_row = "string \<times> string \<times> string"

record database =
  cache :: "(string \<rightharpoonup> string) option"
  tech :: "tech_row list option"
  read_only :: bool

type_synonym filesystem = "database option"

text \<open>The exceptions the two handlers can meet; each carries Python's \<open>str(e)\<close>.\<close>

datatype error =
    OperationalError string
  | IntegrityError string
  | UnidentifiedImageError string
  | RuntimeError string
  | IndexError string

text \<open>\<open>HEALTHCARE_TECH\<close>, as the tuples that \<open>init_db\<close> inserts.\<close>

definition HEALTHCARE_TECH :: "tech_row list" where
  "HEALTHCARE_TECH =
    [(''OpenMRS'', ''Customizable EMR system.'', ''https://openmrs.org/''),
     (''OpenEMR'', ''Open-source EHR and practice management.'', ''https://www.open-emr.org/''),
     (''GNU Health'', ''Health and hospital information system.'', ''https://www.gnuhealth.org/'')]"

text \<open>
  \<open>sqlite3.connect(DB_PATH)\<close> opens the file and creates an empty, writable database
  (no tables) when the path does not exist.
\<close>

definition connect :: "filesystem \<Rightarrow> database" where
  "connect fs =
    (case fs of
       None \<Rightarrow> \<lparr>cache = None, tech = None, read_only = False\<rparr>
     | Some db \<Rightarrow> db)"

text \<open>
  \<open>CREATE TABLE\<close> fails when the file is read-only or the table exists already.
\<close>

definition create_cache :: "database \<Rightarrow> error + database" where
  "create_cache db =
    (if read_only db then Inl (OperationalError ''attempt to write a readonly database'')
     else case cache db of
       Some _ \<Rightarrow> Inl (OperationalError ''table cache already exists'')
     | None \<Rightarrow> Inr (db\<lparr>cache := Some Map.empty\<rparr>))"

definition create_tech :: "database \<Rightarrow> error + database" where
  "create_tech db =
    (if read_only db then Inl (OperationalError ''attempt to write a readonly database'')
     else case tech db of
       Some _ \<Rightarrow> Inl (OperationalError ''table tech already exists'')
     | None \<Rightarrow> Inr (db\<lparr>tech := Some []\<rparr>))"

text \<open>\<open>c.executemany('INSERT INTO tech VALUES (?, ?, ?)', rows)\<close>: appends the rows.\<close>

definition insert_tech :: "tech_row list \<Rightarrow> database \<Rightarrow> error + database" where
  "insert_tech rows db =
    (case tech db of
       None \<Rightarrow> Inl (OperationalError ''no such table: tech'')
     | Some old \<Rightarrow>
         if read_only db then Inl (OperationalError ''attempt to write a readonly database'')
         else Inr (db\<lparr>tech := Some (old @ rows)\<rparr>))"

text \<open>
  \<^verbatim>\<open>
  def init_db():
      if not os.path.exists(DB_PATH):
          conn = sqlite3.connect(DB_PATH)
          c = conn.cursor()
          c.execute('''CREATE TABLE cache (prompt TEXT PRIMARY KEY, response TEXT)''')
          c.execute('''CREATE TABLE tech (name TEXT, description TEXT, url TEXT)''')
          c.executemany('INSERT INTO tech VALUES (?, ?, ?)', [...HEALTHCARE_TECH...])
          conn.commit()
          conn.close()
  \<close>
  The result is the exception raised, if any, and the file afterwards. A statement that
  raises leaves the file as the statements before it made it.
\<close>

definition init_db :: "filesystem \<Rightarrow> error option \<times> filesystem" where
  "init_db fs =
    (case fs of
       Some db \<Rightarrow> (None, Some db)
     | None \<Rightarrow>
         (let conn = connect None in
          case create_cache conn of
            Inl e \<Rightarrow> (Some e, Some conn)
          | Inr db1 \<Rightarrow>
              (case create_tech db1 of
                 Inl e \<Rightarrow> (Some e, Some db1)
               | Inr db2 \<Rightarrow>
                   (case insert_tech HEALTHCARE_TECH db2 of
                      Inl e \<Rightarrow> (Some e, Some db2)
                    | Inr db3 \<Rightarrow> (None, Some db3)))))"

section \<open>SQLite's \<open>LIKE\<close>\<close>

text \<open>
  A \<open>char\<close> stands for one character of the text; the type covers the code points below
  256. SQLite holds text in UTF-8, where a character below 128 takes one byte and the
  others here take two.
\<close>

definition utf8_bytes :: "string \<Rightarrow> nat" where
  "utf8_bytes s = sum_list (map (\<lambda>c. if (of_char c :: nat) < 128 then 1 else 2) s)"

text \<open>
  The matcher reads the pattern and the text as C strings: each ends before its first NUL
  character, whatever follows it.
\<close>

definition c_string :: "string \<Rightarrow> string" where
  "c_string s = takeWhile (\<lambda>c. c \<noteq> CHR 0x00) s"

text \<open>
  The comparison of a pattern with a text, both already cut at their end, with SQLite's
  defaults for \<open>LIKE\<close>: in the pattern a percent sign matches any run of characters (also
  the empty one), an underscore matches exactly one character, and every other character
  matches itself, where the ASCII letters compare without regard to case. There is no
  escape character unless an \<open>ESCAPE\<close> clause names one, and the statement of \<open>ask\<close>
  has none.
\<close>

definition lower :: "char \<Rightarrow> char" where
  "lower c =
    (case map_of (zip ''ABCDEFGHIJKLMNOPQRSTUVWXYZ'' ''abcdefghijklmnopqrstuvwxyz'') c of
       None \<Rightarrow> c
     | Some l \<Rightarrow> l)"

fun matches :: "string \<Rightarrow> string \<Rightarrow> bool" where
  "matches [] s = (s = [])"
| "matches (p # ps) [] = (p = CHR ''%'' \<and> matches ps [])"
| "matches (p # ps) (c # cs) =
    (if p = CHR ''%'' then matches ps (c # cs) \<or> matches (p # ps) cs
     else if p = CHR ''_'' then matches ps cs
     else lower p = lower c \<and> matches ps cs)"

text \<open>
  \<open>X LIKE P\<close> as SQLite evaluates it for one row: a pattern of more than 50000 bytes
  (counted with everything after a NUL) is refused with an error; otherwise the pattern
  and the text are compared as C strings.
\<close>

definition like :: "string \<Rightarrow> string \<Rightarrow> error + bool" where
  "like pattern x =
    (if 50000 < utf8_bytes pattern then Inl (OperationalError ''LIKE or GLOB pattern too complex'')
     else Inr (matches (c_string pattern) (c_string x)))"

section \<open>The statements of \<open>ask\<close>\<close>

text \<open>
  \<^verbatim>\<open>SELECT response FROM cache WHERE prompt = ?\<close> followed by \<open>fetchone()\<close>: the
  comparison of a \<open>TEXT\<close> column with \<open>=\<close> is exact, so the row is the entry of the map.
\<close>

definition select_response :: "database \<Rightarrow> string \<Rightarrow> error + string option" where
  "select_response db prompt =
    (case cache db of
       None \<Rightarrow> Inl (OperationalError ''no such table: cache'')
     | Some m \<Rightarrow> Inr (m prompt))"

text \<open>
  \<^verbatim>\<open>SELECT name, description FROM tech WHERE name LIKE ? OR description LIKE ?\<close> with
  both parameters \<^verbatim>\<open>f"%{prompt}%"\<close>, then \<open>fetchall()\<close>. The table has no index, so
  the statement scans the rows in table order and evaluates the condition on each; an
  error of the condition ends the statement.
\<close>

definition projection :: "tech_row \<Rightarrow> string \<times> string" where
  "projection row = (case row of (name, description, url) \<Rightarrow> (name, description))"

definition where_clause :: "string \<Rightarrow> tech_row \<Rightarrow> error + bool" where
  "where_clause pattern row =
    (case row of (name, description, url) \<Rightarrow>
       (case like pattern name of
          Inl e \<Rightarrow> Inl e
        | Inr True \<Rightarrow> Inr True
        | Inr False \<Rightarrow> like pattern description))"

fun scan :: "(tech_row \<Rightarrow> error + bool) \<Rightarrow> tech_row list \<Rightarrow> error + tech_row list" where
  "scan cond [] = Inr []"
| "scan cond (row # rows) =
    (case cond row of
       Inl e \<Rightarrow> Inl e
     | Inr b \<Rightarrow>
         (case scan cond rows of
            Inl e \<Rightarrow> Inl e
          | Inr found \<Rightarrow> Inr (if b then row # found else found)))"

definition select_tech :: "database \<Rightarrow> string \<Rightarrow> error + (string \<times> string) list" where
  "select_tech db prompt =
    (case tech db of
       None \<Rightarrow> Inl (OperationalError ''no such table: tech'')
     | Some rows \<Rightarrow>
         (case scan (where_clause (''%'' @ prompt @ ''%'')) rows of
            Inl e \<Rightarrow> Inl e
          | Inr found \<Rightarrow> Inr (map projection found)))"

text \<open>
  \<^verbatim>\<open>INSERT INTO cache (prompt, response) VALUES (?, ?)\<close> and \<open>conn.commit()\<close>. It is a
  plain \<open>INSERT\<close>: a row whose \<open>prompt\<close> is already in the table violates the primary key
  and SQLite raises, changing nothing.
\<close>

definition insert_cache :: "database \<Rightarrow> string \<Rightarrow> string \<Rightarrow> error + database" where
  "insert_cache db prompt response =
    (case cache db of
       None \<Rightarrow> Inl (OperationalError ''no such table: cache'')
     | Some m \<Rightarrow>
         if read_only db then Inl (OperationalError ''attempt to write a readonly database'')
         else if m prompt \<noteq> None then Inl (IntegrityError ''UNIQUE constraint failed: cache.prompt'')
         else Inr (db\<lparr>cache := Some (m(prompt \<mapsto> response))\<rparr>))"

text \<open>Python's \<open>sep.join(parts)\<close>.\<close>

fun join :: "string \<Rightarrow> string list \<Rightarrow> string" where
  "join sep [] = []"
| "join sep [x] = x"
| "join sep (x # y # ys) = x @ sep @ join sep (y # ys)"

text \<open>\<^verbatim>\<open>'\n'.join([f"{r[0]}: {r[1]}" for r in results])\<close>\<close>

definition format_results :: "(string \<times> string) list \<Rightarrow> string" where
  "format_results results =
    join [CHR 0x0A] (map (\<lambda>(name, description). name @ '': '' @ description) results)"

section \<open>The \<open>/api/ask\<close> handler\<close>

text \<open>
  What a handler does to the outside: the statements it runs on the database and the
  call of the completion service, in the order it makes them.
\<close>

datatype event =
    CacheLookup string
  | KnowledgeSearch string
  | GenerativeCall string
  | CacheWrite string string

text \<open>
  The JSON bodies built by \<open>jsonify\<close>, and how a handler ends: it returns a status and a
  body, or an exception leaves it.
\<close>

datatype body = ErrorBody string | ResponseBody string | LabelBody string

datatype outcome = Returned nat body | Raised error

text \<open>
  The completion service is a parameter: \<open>completion prompt\<close> is what the \<open>try\<close> block of
  \<open>ask\<close> yields for the prompt, \<open>Inr content\<close> when
  \<open>result['choices'][0]['message']['content']\<close> is reached, and \<open>Inl details\<close> when
  anything inside the block raises an \<open>Exception\<close> whose \<open>str\<close> is \<open>details\<close> (a missing
  API key, the network, a malformed answer). The request body is a JSON object whose
  \<open>prompt\<close>, when present, is a string; \<open>None\<close> is an absent (or null) prompt.

  \<^verbatim>\<open>
  def ask():
      prompt = request.json.get('prompt')
      if not prompt:
          return jsonify({"error": "Prompt is required"}), 400
      conn = sqlite3.connect(DB_PATH)
      c = conn.cursor()
      c.execute("SELECT response FROM cache WHERE prompt = ?", (prompt,))
      row = c.fetchone()
      if row:
          return jsonify({"response": row[0]})
      results = c.execute("SELECT name, description FROM tech WHERE ...").fetchall()
      if results:
          response = '\n'.join([f"{r[0]}: {r[1]}" for r in results])
      else:
          openai.api_key = os.getenv("OPENAI_API_KEY")
          try:
              result = openai.ChatCompletion.create(...)
              response = result['choices'][0]['message']['content']
          except Exception as e:
              response = f"[Error calling model: {e}]"
      c.execute("INSERT INTO cache (prompt, response) VALUES (?, ?)", (prompt, response))
      conn.commit()
      conn.close()
      return jsonify({"response": response})
  \<close>
  The result is the outcome, the file afterwards and the events in order.
\<close>

definition falsy :: "string option \<Rightarrow> bool" where
  "falsy prompt = (case prompt of None \<Rightarrow> True | Some s \<Rightarrow> s = [])"

definition generate :: "(string \<Rightarrow> string + string) \<Rightarrow> string \<Rightarrow> string" where
  "generate completion prompt =
    (case completion prompt of
       Inr content \<Rightarrow> content
     | Inl e \<Rightarrow> ''[Error calling model: '' @ e @ '']'')"

definition persist ::
  "database \<Rightarrow> string \<Rightarrow> string \<Rightarrow> event list \<Rightarrow> outcome \<times> filesystem \<times> event list" where
  "persist db prompt response evs =
    (case insert_cache db prompt response of
       Inl e \<Rightarrow> (Raised e, Some db, evs @ [CacheWrite prompt response])
     | Inr db' \<Rightarrow>
         (Returned 200 (ResponseBody response), Some db', evs @ [CacheWrite prompt response]))"

definition ask ::
  "(string \<Rightarrow> string + string) \<Rightarrow> filesystem \<Rightarrow> string option \<Rightarrow>
     outcome \<times> filesystem \<times> event list" where
  "ask completion fs request_prompt =
    (if falsy request_prompt then (Returned 400 (ErrorBody ''Prompt is required''), fs, [])
     else
       let prompt = the request_prompt; db = connect fs in
       case select_response db prompt of
         Inl e \<Rightarrow> (Raised e, Some db, [CacheLookup prompt])
       | Inr (Some row) \<Rightarrow> (Returned 200 (ResponseBody row), Some db, [CacheLookup prompt])
       | Inr None \<Rightarrow>
           (case select_tech db prompt of
              Inl e \<Rightarrow> (Raised e, Some db, [CacheLookup prompt, KnowledgeSearch prompt])
            | Inr results \<Rightarrow>
                if results \<noteq> [] then
                  persist db prompt (format_results results)
                    [CacheLookup prompt, KnowledgeSearch prompt]
                else
                  persist db prompt (generate completion prompt)
                    [CacheLookup prompt, KnowledgeSearch prompt, GenerativeCall prompt]))"

section \<open>The \<open>/api/autotag\<close> handler\<close>

text \<open>
  An uploaded file is werkzeug's \<open>FileStorage\<close>; its truth value is that of its
  \<open>filename\<close>, so \<open>not file\<close> holds for a missing part and for one without a filename.
\<close>

record file_storage =
  filename :: string
  stream :: "nat list"

definition no_file :: "file_storage option \<Rightarrow> bool" where
  "no_file file = (case file of None \<Rightarrow> True | Some f \<Rightarrow> filename f = [])"

definition tags :: "string list" where
  "tags = [''robot'', ''sensor'', ''healthcare'', ''technology'']"

text \<open>
  \<open>probs.argmax()\<close>: the index of the greatest entry, the first one when several are
  greatest; there is none for an empty tensor.
\<close>

fun argmax_from :: "real \<Rightarrow> nat \<Rightarrow> nat \<Rightarrow> real list \<Rightarrow> nat" where
  "argmax_from best k i [] = k"
| "argmax_from best k i (x # xs) =
    (if best < x then argmax_from x i (Suc i) xs else argmax_from best k (Suc i) xs)"

definition argmax :: "real list \<Rightarrow> nat option" where
  "argmax xs = (case xs of [] \<Rightarrow> None | x # rest \<Rightarrow> Some (argmax_from x 0 1 rest))"

text \<open>
  Three parameters stand for the libraries: \<open>image_open\<close> is
  \<open>Image.open(file.stream).convert("RGB")\<close>, which raises on bytes that are no image;
  \<open>clip\<close> is the processor and the model loaded by \<open>from_pretrained\<close>, run on the image and
  the four texts, which gives the row \<open>logits_per_image[0]\<close> or raises; \<open>softmax\<close> is
  the tensor's \<open>softmax(dim=1)\<close> on that row, computed by torch in floating point. A score
  or probability is the real number that the floating-point value denotes, so nothing is
  assumed about how \<open>softmax\<close> rounds.

  \<^verbatim>\<open>
  def autotag():
      file = request.files.get('image')
      if not file:
          return jsonify({"error": "No image uploaded."}), 400
      image = Image.open(file.stream).convert("RGB")
      processor = CLIPProcessor.from_pretrained("openai/clip-vit-base-patch32")
      model = CLIPModel.from_pretrained("openai/clip-vit-base-patch32")
      inputs = processor(text=["robot", "sensor", "healthcare", "technology"], images=image, ...)
      outputs = model(**inputs)
      logits_per_image = outputs.logits_per_image
      probs = logits_per_image.softmax(dim=1)
      tags = ["robot", "sensor", "healthcare", "technology"]
      top_tag = tags[probs.argmax().item()]
      return jsonify({"label": top_tag})
  \<close>
\<close>

definition autotag ::
  "(nat list \<Rightarrow> error + 'img) \<Rightarrow> ('img \<Rightarrow> error + real list) \<Rightarrow> (real list \<Rightarrow> real list) \<Rightarrow>
     file_storage option \<Rightarrow> outcome" where
  "autotag image_open clip softmax file =
    (if no_file file then Returned 400 (ErrorBody ''No image uploaded.'')
     else
       case image_open (stream (the file)) of
         Inl e \<Rightarrow> Raised e
       | Inr img \<Rightarrow>
           (case clip img of
              Inl e \<Rightarrow> Raised e
            | Inr logits_per_image \<Rightarrow>
                (let probs = softmax logits_per_image in
                 case argmax probs of
                   None \<Rightarrow> Raised (RuntimeError ''argmax of an empty tensor'')
                 | Some i \<Rightarrow>
                     if i < length tags then Returned 200 (LabelBody (tags ! i))
                     else Raised (IndexError ''list index out of range''))))"

section \<open>Notions of the specification\<close>

text \<open>
  Literal containment, as the specification words the knowledge search: \<open>contains s q\<close>
  holds when \<open>q\<close> occurs in \<open>s\<close> as a run of adjacent characters, compared exactly.
\<close>

fun starts_with :: "string \<Rightarrow> string \<Rightarrow> bool" where
  "starts_with s [] = True"
| "starts_with [] (q # qs) = False"
| "starts_with (c # cs) (q # qs) = (c = q \<and> starts_with cs qs)"

fun contains :: "string \<Rightarrow> string \<Rightarrow> bool" where
  "contains [] q = (q = [])"
| "contains (c # cs) q = (starts_with (c # cs) q \<or> contains cs q)"

definition spec_search :: "tech_row list \<Rightarrow> string \<Rightarrow> (string \<times> string) list" where
  "spec_search rows query =
    map projection
      (filter (\<lambda>(name, description, url). contains name query \<or> contains description query) rows)"

text \<open>
  The same search on the fields as C strings, with the ASCII letters of both sides folded
  to lower case.
\<close>

definition folded_search :: "tech_row list \<Rightarrow> string \<Rightarrow> (string \<times> string) list" where
  "folded_search rows query =
    map projection
      (filter (\<lambda>(name, description, url).
                 contains (map lower (c_string name)) (map lower query) \<or>
                 contains (map lower (c_string description)) (map lower query)) rows)"

definition wildcard_free :: "string \<Rightarrow> bool" where
  "wildcard_free q = (CHR ''%'' \<notin> set q \<and> CHR ''_'' \<notin> set q)"

text \<open>
  What may happen between two requests: another request is served, with whatever the
  completion service answers at that time, or the knowledge table is replaced (or
  dropped). Nothing in \<open>app.py\<close> deletes or updates a row of \<open>cache\<close>.
\<close>

datatype step =
    Asked "string \<Rightarrow> string + string" "string option"
  | KnowledgeChanged "tech_row list option"

fun apply_step :: "step \<Rightarrow> filesystem \<Rightarrow> filesystem" where
  "apply_step (Asked completion request_prompt) fs = fst (snd (ask completion fs request_prompt))"
| "apply_step (KnowledgeChanged rows) fs = map_option (\<lambda>db. db\<lparr>tech := rows\<rparr>) fs"

definition run :: "step list \<Rightarrow> filesystem \<Rightarrow> filesystem" where
  "run steps fs = fold apply_step steps fs"

text \<open>The cached response of a prompt, read off the file.\<close>

definition cached :: "filesystem \<Rightarrow> string \<Rightarrow> string option" where
  "cached fs prompt =
    (case fs of
       None \<Rightarrow> None
     | Some db \<Rightarrow> (case cache db of None \<Rightarrow> None | Some m \<Rightarrow> m prompt))"

definition events :: "outcome \<times> filesystem \<times> event list \<Rightarrow> event list" where
  "events r = snd (snd r)"

definition result :: "outcome \<times> filesystem \<times> event list \<Rightarrow> outcome" where
  "result r = fst r"

definition file_after :: "outcome \<times> filesystem \<times> event list \<Rightarrow> filesystem" where
  "file_after r = fst (snd r)"

section \<open>Concrete states and services\<close>

text \<open>
  The database that \<open>init_db\<close> creates; the same after one request has cached an answer
  for \<open>EMR\<close>; the same on a medium that cannot be written. Two completion services: one
  answers every prompt with \<open>42\<close>, the call of the other always raises. The bytes of a
  PNG file of one red pixel, uploaded once under a file name and once without one, with
  stand-ins for the three libraries on that file: a decoder that knows this one file, a
  model whose scores differ by a billionth, and a softmax that gives each of them a
  quarter, as single precision does for scores that close.
\<close>

definition seeded :: database where
  "seeded = \<lparr>cache = Some Map.empty, tech = Some HEALTHCARE_TECH, read_only = False\<rparr>"


definition write_protected :: database where
  "write_protected =
    \<lparr>cache = Some Map.empty, tech = Some HEALTHCARE_TECH, read_only = True\<rparr>"

definition without_tech :: database where
  "without_tech = \<lparr>cache = Some Map.empty, tech = None, read_only = False\<rparr>"

definition answering :: "string \<Rightarrow> string + string" where
  "answering prompt = Inr ''42''"

definition failing :: "string \<Rightarrow> string + string" where
  "failing prompt = Inl ''Connection error.''"

definition one_pixel :: "nat list" where
  "one_pixel =
    [137, 80, 78, 71, 13, 10, 26, 10, 0, 0, 0, 13, 73, 72, 68, 82, 0, 0, 0, 1, 0, 0, 0, 1,
     8, 2, 0, 0, 0, 144, 119, 83, 222, 0, 0, 0, 12, 73, 68, 65, 84, 120, 156, 99, 248, 207,
     192, 0, 0, 3, 1, 1, 0, 201, 254, 146, 239, 0, 0, 0, 0, 73, 69, 78, 68, 174, 66, 96, 130]"

definition named_upload :: file_storage where
  "named_upload = \<lparr>filename = ''scan.png'', stream = one_pixel\<rparr>"

definition unnamed_upload :: file_storage where
  "unnamed_upload = \<lparr>filename = [], stream = one_pixel\<rparr>"

definition stub_open :: "nat list \<Rightarrow> error + nat list" where
  "stub_open bytes =
    (if bytes = one_pixel then Inr [255, 0, 0]
     else Inl (UnidentifiedImageError ''cannot identify image file''))"

definition stub_clip :: "nat list \<Rightarrow> error + real list" where
  "stub_clip img = Inr [0, 1 / 1000000000, 0, 0]"

definition stub_softmax :: "real list \<Rightarrow> real list" where
  "stub_softmax xs = replicate (length xs) (1 / 4)"

section \<open>Facts about the search\<close>

lemma starts_with_iff: "starts_with s q \<longleftrightarrow> (\<exists>suf. s = q @ suf)"
  by (induction s q rule: starts_with.induct) auto

lemma contains_iff: "contains s q \<longleftrightarrow> (\<exists>pre suf. s = pre @ q @ suf)"
proof (induction s)
  case Nil
  then show ?case by auto
next
  case (Cons c cs)
  show ?case
  proof
    assume "contains (c # cs) q"
    then consider "starts_with (c # cs) q" | "contains cs q" by auto
    then show "\<exists>pre suf. c # cs = pre @ q @ suf"
    proof cases
      case 1
      then obtain suf where "c # cs = q @ suf" by (auto simp: starts_with_iff)
      then have "c # cs = [] @ q @ suf" by simp
      then show ?thesis by blast
    next
      case 2
      then obtain pre suf where "cs = pre @ q @ suf" using Cons.IH by auto
      then have "c # cs = (c # pre) @ q @ suf" by simp
      then show ?thesis by blast
    qed
  next
    assume "\<exists>pre suf. c # cs = pre @ q @ suf"
    then obtain pre suf where eq: "c # cs = pre @ q @ suf" by blast
    show "contains (c # cs) q"
    proof (cases pre)
      case Nil
      with eq have "starts_with (c # cs) q" by (auto simp: starts_with_iff)
      then show ?thesis by simp
    next
      case (Cons a pre')
      with eq have "cs = pre' @ q @ suf" by simp
      then have "contains cs q" using Cons.IH by blast
      then show ?thesis by simp
    qed
  qed
qed

lemma matches_percent_all: "matches [CHR ''%''] s"
  by (induction s) auto

lemma matches_percent_skip: "matches ps s \<Longrightarrow> matches (CHR ''%'' # ps) s"
  by (cases s) auto

lemma matches_percent_grow: "matches (CHR ''%'' # ps) s \<Longrightarrow> matches (CHR ''%'' # ps) (c # s)"
  by simp

lemma matches_append:
  "matches (p @ p') s \<longleftrightarrow> (\<exists>s1 s2. s = s1 @ s2 \<and> matches p s1 \<and> matches p' s2)"
proof (induction p s rule: matches.induct)
  case (1 s)
  then show ?case by auto
next
  case (2 p ps)
  then show ?case by auto
next
  case (3 p ps c cs)
  show ?case
  proof (cases "p = CHR ''%''")
    case True
    have skip: "matches (ps @ p') (c # cs) \<longleftrightarrow>
        (\<exists>s1 s2. c # cs = s1 @ s2 \<and> matches ps s1 \<and> matches p' s2)"
      using 3(1) True by simp
    have grow: "matches ((p # ps) @ p') cs \<longleftrightarrow>
        (\<exists>s1 s2. cs = s1 @ s2 \<and> matches (p # ps) s1 \<and> matches p' s2)"
      using 3(2) True by simp
    show ?thesis
    proof
      assume "matches ((p # ps) @ p') (c # cs)"
      then consider "matches (ps @ p') (c # cs)" | "matches ((p # ps) @ p') cs"
        using True by auto
      then show "\<exists>s1 s2. c # cs = s1 @ s2 \<and> matches (p # ps) s1 \<and> matches p' s2"
      proof cases
        case 1
        then obtain s1 s2 where "c # cs = s1 @ s2" "matches ps s1" "matches p' s2"
          using skip by blast
        then show ?thesis using True matches_percent_skip by blast
      next
        case 2
        then obtain s1 s2 where "cs = s1 @ s2" "matches (p # ps) s1" "matches p' s2"
          using grow by blast
        then have "c # cs = (c # s1) @ s2 \<and> matches (p # ps) (c # s1) \<and> matches p' s2"
          using True by simp
        then show ?thesis by blast
      qed
    next
      assume "\<exists>s1 s2. c # cs = s1 @ s2 \<and> matches (p # ps) s1 \<and> matches p' s2"
      then obtain s1 s2 where eq: "c # cs = s1 @ s2" and l1: "matches (p # ps) s1" and l2: "matches p' s2"
        by blast
      show "matches ((p # ps) @ p') (c # cs)"
      proof (cases s1)
        case Nil
        then have "matches ps []" using l1 by simp
        then have "matches (ps @ p') (c # cs)" using skip eq l2 Nil by auto
        then show ?thesis using True by simp
      next
        case (Cons a s1')
        then have a: "a = c" and cs: "cs = s1' @ s2" using eq by auto
        from l1 Cons True have "matches ps (c # s1') \<or> matches (p # ps) s1'" using a by simp
        then show ?thesis
        proof
          assume "matches ps (c # s1')"
          then have "matches (ps @ p') (c # cs)" using skip cs l2 by auto
          then show ?thesis using True by simp
        next
          assume "matches (p # ps) s1'"
          then have "matches ((p # ps) @ p') cs" using grow cs l2 by auto
          then show ?thesis using True by simp
        qed
      qed
    qed
  next
    case False
    have step: "matches (ps @ p') cs \<longleftrightarrow> (\<exists>s1 s2. cs = s1 @ s2 \<and> matches ps s1 \<and> matches p' s2)"
      using 3(3,4) False by (cases "p = CHR ''_''") auto
    show ?thesis
    proof
      assume l: "matches ((p # ps) @ p') (c # cs)"
      then have "matches (ps @ p') cs" using False by (auto split: if_splits)
      then obtain s1 s2 where "cs = s1 @ s2" "matches ps s1" "matches p' s2" using step by blast
      then have "c # cs = (c # s1) @ s2 \<and> matches (p # ps) (c # s1) \<and> matches p' s2"
        using l False by (auto split: if_splits)
      then show "\<exists>s1 s2. c # cs = s1 @ s2 \<and> matches (p # ps) s1 \<and> matches p' s2" by blast
    next
      assume "\<exists>s1 s2. c # cs = s1 @ s2 \<and> matches (p # ps) s1 \<and> matches p' s2"
      then obtain s1 s2 where eq: "c # cs = s1 @ s2" and l1: "matches (p # ps) s1" and l2: "matches p' s2"
        by blast
      from l1 False obtain s1' where s1: "s1 = c # s1'" using eq by (cases s1) auto
      then have cs: "cs = s1' @ s2" using eq by simp
      from l1 s1 False have "matches ps s1'" by (auto split: if_splits)
      then have "matches (ps @ p') cs" using step cs l2 by blast
      then show "matches ((p # ps) @ p') (c # cs)" using l1 s1 False by (auto split: if_splits)
    qed
  qed
qed

lemma matches_infix:
  "matches (''%'' @ q @ ''%'') s \<longleftrightarrow> (\<exists>pre mid suf. s = pre @ mid @ suf \<and> matches q mid)"
proof -
  have "matches (''%'' @ q @ ''%'') s \<longleftrightarrow>
      (\<exists>s1 s2. s = s1 @ s2 \<and> matches ''%'' s1 \<and> matches (q @ ''%'') s2)"
    by (rule matches_append)
  also have "\<dots> \<longleftrightarrow> (\<exists>s1 s2. s = s1 @ s2 \<and> matches (q @ ''%'') s2)"
    by (simp add: matches_percent_all)
  also have "\<dots> \<longleftrightarrow> (\<exists>s1 s2. s = s1 @ s2 \<and> (\<exists>m t. s2 = m @ t \<and> matches q m \<and> matches ''%'' t))"
    by (simp only: matches_append [of q])
  also have "\<dots> \<longleftrightarrow> (\<exists>pre mid suf. s = pre @ mid @ suf \<and> matches q mid)"
    by (auto simp: matches_percent_all)
  finally show ?thesis .
qed

lemma matches_literal:
  "wildcard_free q \<Longrightarrow> matches q s \<longleftrightarrow> map lower q = map lower s"
  by (induction q s rule: matches.induct) (auto simp: wildcard_free_def)


lemma matches_folded:
  assumes "wildcard_free q"
  shows "matches (''%'' @ q @ ''%'') s \<longleftrightarrow> contains (map lower s) (map lower q)"
proof -
  have "matches (''%'' @ q @ ''%'') s \<longleftrightarrow>
      (\<exists>pre mid suf. s = pre @ mid @ suf \<and> map lower q = map lower mid)"
    using assms by (simp only: matches_infix matches_literal)
  also have "\<dots> \<longleftrightarrow> (\<exists>pre suf. map lower s = pre @ map lower q @ suf)"
  proof
    assume "\<exists>pre mid suf. s = pre @ mid @ suf \<and> map lower q = map lower mid"
    then obtain pre mid suf where "s = pre @ mid @ suf" "map lower q = map lower mid"
      by blast
    then have "map lower s = map lower pre @ map lower q @ map lower suf" by simp
    then show "\<exists>pre suf. map lower s = pre @ map lower q @ suf" by blast
  next
    assume "\<exists>pre suf. map lower s = pre @ map lower q @ suf"
    then obtain pre suf where "map lower s = pre @ map lower q @ suf" by blast
    then have "\<exists>us vs. s = us @ vs \<and> pre = map lower us \<and> map lower q @ suf = map lower vs"
      by (simp only: map_eq_append_conv)
    then obtain us vs where s: "s = us @ vs" and vs: "map lower q @ suf = map lower vs"
      by blast
    from vs have "\<exists>m t. vs = m @ t \<and> map lower q = map lower m \<and> suf = map lower t"
      by (simp only: append_eq_map_conv)
    then obtain mid t where "vs = mid @ t" "map lower mid = map lower q"
      by auto
    with s have "s = us @ mid @ t \<and> map lower q = map lower mid" by simp
    then show "\<exists>pre mid suf. s = pre @ mid @ suf \<and> map lower q = map lower mid" by blast
  qed
  finally show ?thesis by (simp add: contains_iff)
qed

lemma matches_suffix:
  "matches (CHR ''%'' # p) s \<longleftrightarrow> (\<exists>pre mid. s = pre @ mid \<and> matches p mid)"
  using matches_append [of "''%''" p s] by (simp add: matches_percent_all)

text \<open>The pattern of \<open>ask\<close> as a C string, and its length in bytes.\<close>

lemma c_string_no_nul: "CHR 0x00 \<notin> set s \<Longrightarrow> c_string s = s"
  by (auto simp: c_string_def takeWhile_eq_all_conv)

lemma c_string_pattern:
  "c_string (''%'' @ q @ ''%'') =
    (if CHR 0x00 \<in> set q then CHR ''%'' # c_string q else ''%'' @ q @ ''%'')"
  by (auto simp: c_string_def takeWhile_append)

lemma utf8_bytes_pattern: "utf8_bytes (''%'' @ q @ ''%'') = utf8_bytes q + 2"
  by (simp add: utf8_bytes_def)

lemma utf8_bytes_replicate: "utf8_bytes (replicate n CHR ''a'') = n"
  by (induction n) (simp_all add: utf8_bytes_def)

text \<open>The scan of the table, when the condition is defined on every row and when it fails.\<close>

lemma scan_total: "(\<And>row. cond row = Inr (f row)) \<Longrightarrow> scan cond rows = Inr (filter f rows)"
  by (induction rows) simp_all

lemma scan_error: "rows \<noteq> [] \<Longrightarrow> (\<And>row. cond row = Inl e) \<Longrightarrow> scan cond rows = Inl e"
  by (cases rows) simp_all

lemma where_clause_within:
  "utf8_bytes pattern \<le> 50000 \<Longrightarrow>
    where_clause pattern row =
      Inr (case row of (name, description, url) \<Rightarrow>
        matches (c_string pattern) (c_string name) \<or>
        matches (c_string pattern) (c_string description))"
  by (auto simp: where_clause_def like_def split: prod.splits bool.splits)

lemma where_clause_beyond:
  "50000 < utf8_bytes pattern \<Longrightarrow>
    where_clause pattern row = Inl (OperationalError ''LIKE or GLOB pattern too complex'')"
  by (simp add: where_clause_def like_def split: prod.splits)



lemma select_tech_within:
  assumes "tech db = Some rows" "utf8_bytes q + 2 \<le> 50000"
  shows "select_tech db q =
    Inr (map projection
      (filter (\<lambda>(name, description, url).
          matches (c_string (''%'' @ q @ ''%'')) (c_string name) \<or>
          matches (c_string (''%'' @ q @ ''%'')) (c_string description)) rows))"
proof -
  have "utf8_bytes (''%'' @ q @ ''%'') \<le> 50000"
    using assms(2) by (simp only: utf8_bytes_pattern)
  then have "scan (where_clause (''%'' @ q @ ''%'')) rows =
    Inr (filter (\<lambda>(name, description, url).
          matches (c_string (''%'' @ q @ ''%'')) (c_string name) \<or>
          matches (c_string (''%'' @ q @ ''%'')) (c_string description)) rows)"
    by (intro scan_total where_clause_within)
  then show ?thesis using assms(1) by (simp add: select_tech_def del: append.simps)
qed

lemma select_tech_beyond:
  assumes "tech db = Some rows" "rows \<noteq> []" "50000 < utf8_bytes q + 2"
  shows "select_tech db q = Inl (OperationalError ''LIKE or GLOB pattern too complex'')"
proof -
  have "50000 < utf8_bytes (''%'' @ q @ ''%'')"
    using assms(3) by (simp only: utf8_bytes_pattern)
  then have "scan (where_clause (''%'' @ q @ ''%'')) rows =
      Inl (OperationalError ''LIKE or GLOB pattern too complex'')"
    using assms(2) by (intro scan_error where_clause_beyond)
  then show ?thesis using assms(1) by (simp add: select_tech_def del: append.simps)
qed

section \<open>Facts about \<open>ask\<close>\<close>

lemma ask_unfold:
  "p \<noteq> [] \<Longrightarrow> ask completion fs (Some p) =
    (case select_response (connect fs) p of
       Inl e \<Rightarrow> (Raised e, Some (connect fs), [CacheLookup p])
     | Inr (Some row) \<Rightarrow> (Returned 200 (ResponseBody row), Some (connect fs), [CacheLookup p])
     | Inr None \<Rightarrow>
         (case select_tech (connect fs) p of
            Inl e \<Rightarrow> (Raised e, Some (connect fs), [CacheLookup p, KnowledgeSearch p])
          | Inr results \<Rightarrow>
              if results \<noteq> [] then
                persist (connect fs) p (format_results results) [CacheLookup p, KnowledgeSearch p]
              else
                persist (connect fs) p (generate completion p)
                  [CacheLookup p, KnowledgeSearch p, GenerativeCall p]))"
  by (simp add: ask_def falsy_def Let_def)

lemma ask_miss_known:
  assumes "p \<noteq> []" "select_response (connect fs) p = Inr None"
    "select_tech (connect fs) p = Inr rs" "rs \<noteq> []"
  shows "ask completion fs (Some p) =
    persist (connect fs) p (format_results rs) [CacheLookup p, KnowledgeSearch p]"
  using assms by (simp add: ask_def falsy_def)

lemma ask_miss_unknown:
  assumes "p \<noteq> []" "select_response (connect fs) p = Inr None"
    "select_tech (connect fs) p = Inr []"
  shows "ask completion fs (Some p) =
    persist (connect fs) p (generate completion p)
      [CacheLookup p, KnowledgeSearch p, GenerativeCall p]"
  using assms by (simp add: ask_def falsy_def)

lemma events_persist: "events (persist db p r evs) = evs @ [CacheWrite p r]"
  by (simp add: persist_def events_def split: sum.splits)

lemma insert_cache_ok:
  "select_response db p = Inr None \<Longrightarrow> \<not> read_only db \<Longrightarrow>
   \<exists>m. cache db = Some m \<and> insert_cache db p r = Inr (db\<lparr>cache := Some (m(p \<mapsto> r))\<rparr>)"
  by (auto simp: select_response_def insert_cache_def split: option.splits)

lemma insert_cache_read_only:
  "select_response db p = Inr None \<Longrightarrow> read_only db \<Longrightarrow>
   insert_cache db p r = Inl (OperationalError ''attempt to write a readonly database'')"
  by (auto simp: select_response_def insert_cache_def split: option.splits)

lemma ask_write_after_miss:
  "CacheWrite q r \<in> set (events (ask completion fs request_prompt)) \<Longrightarrow>
    select_response (connect fs) q = Inr None"
  by (auto simp: ask_def events_def persist_def falsy_def Let_def
      split: if_splits sum.splits option.splits)


lemma cached_Some_file: "cached fs p = Some r \<Longrightarrow> \<exists>db m. fs = Some db \<and> cache db = Some m \<and> m p = Some r"
  by (auto simp: cached_def split: option.splits)

lemma ask_hit:
  assumes "p \<noteq> []" "cached fs p = Some r"
  shows "ask completion fs (Some p) = (Returned 200 (ResponseBody r), fs, [CacheLookup p])"
proof -
  from assms(2) obtain db m where "fs = Some db" "cache db = Some m" "m p = Some r"
    using cached_Some_file by blast
  then show ?thesis
    by (simp add: ask_unfold [OF assms(1)] connect_def select_response_def)
qed

lemma persist_cached:
  "select_response db q = Inr None \<Longrightarrow> cached (Some db) p = Some r \<Longrightarrow>
    cached (file_after (persist db q resp evs)) p = Some r"
  by (auto simp: persist_def file_after_def cached_def select_response_def insert_cache_def
      split: option.splits sum.splits if_splits)

lemma ask_keeps_cached:
  assumes "cached fs p = Some r"
  shows "cached (file_after (ask completion fs request_prompt)) p = Some r"
proof (cases "falsy request_prompt")
  case True
  then show ?thesis using assms by (simp add: ask_def file_after_def)
next
  case False
  then obtain q where q: "request_prompt = Some q" "q \<noteq> []"
    by (auto simp: falsy_def split: option.splits)
  from assms obtain db where fs: "fs = Some db" using cached_Some_file by blast
  then have c: "connect fs = db" by (simp add: connect_def)
  show ?thesis
    using assms persist_cached [of db q p r]
    unfolding q ask_unfold [OF q(2)] c
    by (auto simp: fs file_after_def split: sum.splits option.splits)
qed

lemma step_keeps_cached:
  "cached fs p = Some r \<Longrightarrow> cached (apply_step s fs) p = Some r"
proof (cases s)
  case (Asked completion request_prompt)
  assume "cached fs p = Some r"
  then show ?thesis
    using ask_keeps_cached [of fs p r completion request_prompt] Asked
    by (simp add: file_after_def)
next
  case (KnowledgeChanged rows)
  assume "cached fs p = Some r"
  then show ?thesis using KnowledgeChanged
    by (auto simp: cached_def split: option.splits)
qed

lemma run_keeps_cached:
  "cached fs p = Some r \<Longrightarrow> cached (run steps fs) p = Some r"
  unfolding run_def
  by (induction steps arbitrary: fs) (simp_all add: step_keeps_cached)

lemma ask_success_cached:
  assumes "result (ask completion fs request_prompt) = Returned 200 (ResponseBody r)"
  shows "\<exists>p. request_prompt = Some p \<and> p \<noteq> [] \<and>
    cached (file_after (ask completion fs request_prompt)) p = Some r"
proof (cases "falsy request_prompt")
  case True
  then show ?thesis using assms by (simp add: ask_def result_def)
next
  case False
  then obtain q where q: "request_prompt = Some q" "q \<noteq> []"
    by (auto simp: falsy_def split: option.splits)
  show ?thesis
    using assms unfolding q ask_unfold [OF q(2)]
    by (auto simp: q result_def file_after_def cached_def persist_def select_response_def
        insert_cache_def split: sum.splits option.splits if_splits)
qed

text \<open>The requests that the examples below make on the seeded database.\<close>

lemma seeded_miss: "select_response (connect (Some seeded)) p = Inr None"
  by (simp add: connect_def select_response_def seeded_def)

lemma seeded_writable: "\<not> read_only (connect (Some seeded))"
  by (simp add: connect_def seeded_def)

lemma seeded_tech: "tech (connect (Some seeded)) = Some HEALTHCARE_TECH"
  by (simp add: connect_def seeded_def)

lemma protected_miss: "select_response (connect (Some write_protected)) p = Inr None"
  by (simp add: connect_def select_response_def write_protected_def)

lemma protected_read_only: "read_only (connect (Some write_protected))"
  by (simp add: connect_def write_protected_def)

lemma protected_tech: "tech (connect (Some write_protected)) = Some HEALTHCARE_TECH"
  by (simp add: connect_def write_protected_def)

lemma short_EMR: "utf8_bytes ''EMR'' + 2 \<le> 50000"
  by (simp add: utf8_bytes_def)

lemma short_gravity: "utf8_bytes ''quantum gravity'' + 2 \<le> 50000"
  by (simp add: utf8_bytes_def)

lemma found_EMR:
  "map projection
     (filter (\<lambda>(name, description, url).
         matches (c_string (''%'' @ ''EMR'' @ ''%'')) (c_string name) \<or>
         matches (c_string (''%'' @ ''EMR'' @ ''%'')) (c_string description)) HEALTHCARE_TECH) =
   [(''OpenMRS'', ''Customizable EMR system.''),
    (''OpenEMR'', ''Open-source EHR and practice management.'')]"
  by code_simp

lemma found_gravity:
  "map projection
     (filter (\<lambda>(name, description, url).
         matches (c_string (''%'' @ ''quantum gravity'' @ ''%'')) (c_string name) \<or>
         matches (c_string (''%'' @ ''quantum gravity'' @ ''%'')) (c_string description))
       HEALTHCARE_TECH) = []"
  by code_simp

lemma seeded_EMR:
  "select_tech (connect (Some seeded)) ''EMR'' =
    Inr [(''OpenMRS'', ''Customizable EMR system.''),
         (''OpenEMR'', ''Open-source EHR and practice management.'')]"
  using select_tech_within [OF seeded_tech short_EMR] found_EMR by simp

lemma seeded_gravity: "select_tech (connect (Some seeded)) ''quantum gravity'' = Inr []"
  using select_tech_within [OF seeded_tech short_gravity] found_gravity by simp

lemma protected_EMR:
  "select_tech (connect (Some write_protected)) ''EMR'' =
    Inr [(''OpenMRS'', ''Customizable EMR system.''),
         (''OpenEMR'', ''Open-source EHR and practice management.'')]"
  using select_tech_within [OF protected_tech short_EMR] found_EMR by simp

lemma format_EMR:
  "format_results
     [(''OpenMRS'', ''Customizable EMR system.''),
      (''OpenEMR'', ''Open-source EHR and practice management.'')] =
   ''OpenMRS: Customizable EMR system.\<newline>OpenEMR: Open-source EHR and practice management.''"
  by (simp add: format_results_def)

section \<open>Facts about \<open>argmax\<close>\<close>

lemma argmax_from_spec:
  assumes "k < length pre" "pre ! k = best" "\<forall>j<length pre. pre ! j \<le> best"
    "\<forall>j<k. pre ! j < best"
  shows "argmax_from best k (length pre) xs < length (pre @ xs) \<and>
    (\<forall>j<length (pre @ xs). (pre @ xs) ! j \<le> (pre @ xs) ! argmax_from best k (length pre) xs) \<and>
    (\<forall>j<argmax_from best k (length pre) xs.
       (pre @ xs) ! j < (pre @ xs) ! argmax_from best k (length pre) xs)"
  using assms
proof (induction xs arbitrary: pre best k)
  case Nil
  then show ?case by simp
next
  case (Cons x xs)
  have len: "length (pre @ [x]) = Suc (length pre)" by simp
  have app: "(pre @ [x]) @ xs = pre @ x # xs" by simp
  show ?case
  proof (cases "best < x")
    case True
    have "length pre < length (pre @ [x])" by simp
    moreover have "(pre @ [x]) ! length pre = x" by simp
    moreover have "\<forall>j<length (pre @ [x]). (pre @ [x]) ! j \<le> x"
      using Cons.prems(3) True by (auto simp: nth_append less_Suc_eq)
    moreover have "\<forall>j<length pre. (pre @ [x]) ! j < x"
      using Cons.prems(3) True by (auto simp: nth_append)
    ultimately show ?thesis
      using Cons.IH [of "length pre" "pre @ [x]" x] True
      unfolding len app by simp
  next
    case False
    have "k < length (pre @ [x])" using Cons.prems(1) by simp
    moreover have "(pre @ [x]) ! k = best"
      using Cons.prems(1,2) by (simp add: nth_append)
    moreover have "\<forall>j<length (pre @ [x]). (pre @ [x]) ! j \<le> best"
      using Cons.prems(3) False by (auto simp: nth_append less_Suc_eq)
    moreover have "\<forall>j<k. (pre @ [x]) ! j < best"
      using Cons.prems(1,4) by (auto simp: nth_append)
    ultimately show ?thesis
      using Cons.IH [of k "pre @ [x]" best] False
      unfolding len app by simp
  qed
qed

lemma argmax_spec:
  assumes "xs \<noteq> []"
  shows "\<exists>i. argmax xs = Some i \<and> i < length xs \<and> (\<forall>j<length xs. xs ! j \<le> xs ! i) \<and>
    (\<forall>j<i. xs ! j < xs ! i)"
proof -
  from assms obtain x rest where xs: "xs = x # rest" by (cases xs) auto
  have "argmax_from x 0 (length [x]) rest < length ([x] @ rest) \<and>
    (\<forall>j<length ([x] @ rest). ([x] @ rest) ! j \<le> ([x] @ rest) ! argmax_from x 0 (length [x]) rest) \<and>
    (\<forall>j<argmax_from x 0 (length [x]) rest.
       ([x] @ rest) ! j < ([x] @ rest) ! argmax_from x 0 (length [x]) rest)"
    by (rule argmax_from_spec) simp_all
  then show ?thesis by (simp add: argmax_def xs)
qed

section \<open>The claims\<close>

subsection \<open>The cache\<close>

text \<open>
  C1 (idempotent cache hit): once a request for the prompt \<open>p\<close> has returned the response
  \<open>r\<close> with success, \<open>r\<close> is the cached value of \<open>p\<close>, and every later request for
  exactly \<open>p\<close> returns \<open>r\<close> again, whatever requests were served and however the
  knowledge table was changed in between, and whatever the completion service would
  answer now. The later request only looks the cache up: it makes no knowledge search, no
  completion call and no cache write, and it leaves the file as it was.
\<close>

theorem idempotent_cache_hit:
  assumes "result (ask completion fs (Some p)) = Returned 200 (ResponseBody r)"
  shows "cached (file_after (ask completion fs (Some p))) p = Some r \<and>
    ask completion' (run steps (file_after (ask completion fs (Some p)))) (Some p) =
      (Returned 200 (ResponseBody r), run steps (file_after (ask completion fs (Some p))),
       [CacheLookup p])"
proof -
  from ask_success_cached [OF assms]
  have p: "p \<noteq> []" and c: "cached (file_after (ask completion fs (Some p))) p = Some r"
    by auto
  from c have "cached (run steps (file_after (ask completion fs (Some p)))) p = Some r"
    by (rule run_keeps_cached)
  then show ?thesis using c p by (simp add: ask_hit)
qed

theorem idempotent_cache_hit_witness:
  "result (ask answering (Some seeded) (Some ''quantum gravity'')) =
     Returned 200 (ResponseBody ''42'') \<and>
   ask failing
     (run [KnowledgeChanged None, Asked failing (Some ''EMR'')]
       (file_after (ask answering (Some seeded) (Some ''quantum gravity''))))
     (Some ''quantum gravity'') =
   (Returned 200 (ResponseBody ''42''),
    run [KnowledgeChanged None, Asked failing (Some ''EMR'')]
      (file_after (ask answering (Some seeded) (Some ''quantum gravity''))),
    [CacheLookup ''quantum gravity''])"
proof -
  have n: "''quantum gravity'' \<noteq> []" by simp
  have h: "result (ask answering (Some seeded) (Some ''quantum gravity'')) =
      Returned 200 (ResponseBody ''42'')"
    using insert_cache_ok [OF seeded_miss seeded_writable, of "''quantum gravity''" "''42''"]
    by (auto simp: ask_miss_unknown [OF n seeded_miss seeded_gravity] persist_def result_def
        generate_def answering_def)
  show ?thesis using h idempotent_cache_hit [OF h] by blast
qed




text \<open>
  C9 (one-time initialisation): when the file is absent, \<open>init_db\<close> creates it with an
  empty cache table and a knowledge table holding \<open>HEALTHCARE_TECH\<close>; when the file
  exists, \<open>init_db\<close> leaves it as it is, whatever it holds; it never raises; and running
  it a second time gives what running it once gave.
\<close>

theorem init_db_once:
  "init_db None = (None, Some seeded) \<and>
   init_db (Some db) = (None, Some db) \<and>
   init_db (snd (init_db fs)) = init_db fs"
proof -
  have a: "init_db None = (None, Some seeded)"
    by (simp add: init_db_def connect_def create_cache_def create_tech_def insert_tech_def seeded_def)
  have b: "\<And>d. init_db (Some d) = (None, Some d)" by (simp add: init_db_def)
  have c: "init_db (snd (init_db fs)) = init_db fs"
    by (cases fs) (simp_all add: a b)
  show ?thesis using a b c by simp
qed

subsection \<open>The knowledge search\<close>

text \<open>
  C2 (knowledge precedence): when the prompt misses the cache and the search returns at
  least one record, the request makes no completion call, for any prompt, and its whole
  result is the same whatever the completion service is.
\<close>

theorem knowledge_precedence:
  assumes "p \<noteq> []" "select_response (connect fs) p = Inr None"
    "select_tech (connect fs) p = Inr rs" "rs \<noteq> []"
  shows "GenerativeCall q \<notin> set (events (ask completion fs (Some p))) \<and>
    ask completion fs (Some p) = ask completion' fs (Some p)"
  by (simp add: ask_miss_known [OF assms] events_persist)

theorem knowledge_precedence_witness:
  "''EMR'' \<noteq> [] \<and> select_response (connect (Some seeded)) ''EMR'' = Inr None \<and>
   select_tech (connect (Some seeded)) ''EMR'' =
     Inr [(''OpenMRS'', ''Customizable EMR system.''),
          (''OpenEMR'', ''Open-source EHR and practice management.'')] \<and>
   GenerativeCall ''EMR'' \<notin> set (events (ask answering (Some seeded) (Some ''EMR''))) \<and>
   ask answering (Some seeded) (Some ''EMR'') = ask failing (Some seeded) (Some ''EMR'')"
proof -
  have n: "''EMR'' \<noteq> []" by simp
  have r: "[(''OpenMRS'', ''Customizable EMR system.''),
      (''OpenEMR'', ''Open-source EHR and practice management.'')] \<noteq> []" by simp
  note k = knowledge_precedence [OF n seeded_miss seeded_EMR r]
  show ?thesis using k n seeded_miss seeded_EMR by blast
qed

text \<open>
  C3, as the specification states it: the search returns exactly the records whose name
  or description contains the query as a case-sensitive literal substring. It fails on
  the seeded table: \<open>openmrs\<close> occurs in no record, yet \<open>LIKE\<close> folds the case of ASCII
  letters and the search returns the record \<open>OpenMRS\<close>.
\<close>

theorem knowledge_search_counterexample:
  "select_tech seeded ''openmrs'' = Inr [(''OpenMRS'', ''Customizable EMR system.'')] \<and>
   spec_search HEALTHCARE_TECH ''openmrs'' = []"
proof -
  have t: "tech seeded = Some HEALTHCARE_TECH" by (simp add: seeded_def)
  have n: "utf8_bytes ''openmrs'' + 2 \<le> 50000" by (simp add: utf8_bytes_def)
  have f: "map projection
     (filter (\<lambda>(name, description, url).
         matches (c_string (''%'' @ ''openmrs'' @ ''%'')) (c_string name) \<or>
         matches (c_string (''%'' @ ''openmrs'' @ ''%'')) (c_string description))
       HEALTHCARE_TECH) = [(''OpenMRS'', ''Customizable EMR system.'')]"
    by code_simp
  have s: "spec_search HEALTHCARE_TECH ''openmrs'' = []" by code_simp
  show ?thesis using select_tech_within [OF t n] f s by simp
qed

text \<open>
  C3, amended: the search is SQLite's \<open>LIKE\<close> with the pattern \<open>%q%\<close> on the name and the
  description of every row, and returns the matching records in table order. On a table
  with a row it raises when the pattern is longer than 50000 bytes; on an empty table it
  returns nothing. Otherwise SQLite reads the pattern and the fields up to their first NUL
  character, compares ASCII letters without regard to case, and takes a percent sign or
  an underscore in \<open>q\<close> as a wildcard: a record is returned when a run of adjacent
  characters of a field matches \<open>q\<close>, or, if \<open>q\<close> has a NUL, when an end piece of a field
  matches \<open>q\<close> as cut at the NUL. For a \<open>q\<close> without NUL, percent sign and underscore,
  these are the records of which a field contains \<open>q\<close> when the ASCII letters of both
  are folded to lower case.
\<close>

theorem knowledge_search_like:
  assumes "tech db = Some rows"
  shows "(rows \<noteq> [] \<and> 50000 < utf8_bytes q + 2 \<longrightarrow>
      select_tech db q = Inl (OperationalError ''LIKE or GLOB pattern too complex'')) \<and>
    (rows = [] \<longrightarrow> select_tech db q = Inr []) \<and>
    (utf8_bytes q + 2 \<le> 50000 \<and> CHR 0x00 \<notin> set q \<longrightarrow>
      select_tech db q =
        Inr (map projection
          (filter (\<lambda>(name, description, url).
              (\<exists>pre mid suf. c_string name = pre @ mid @ suf \<and> matches q mid) \<or>
              (\<exists>pre mid suf. c_string description = pre @ mid @ suf \<and> matches q mid))
            rows))) \<and>
    (utf8_bytes q + 2 \<le> 50000 \<and> CHR 0x00 \<in> set q \<longrightarrow>
      select_tech db q =
        Inr (map projection
          (filter (\<lambda>(name, description, url).
              (\<exists>pre mid. c_string name = pre @ mid \<and> matches (c_string q) mid) \<or>
              (\<exists>pre mid. c_string description = pre @ mid \<and> matches (c_string q) mid))
            rows))) \<and>
    (utf8_bytes q + 2 \<le> 50000 \<and> CHR 0x00 \<notin> set q \<and> wildcard_free q \<longrightarrow>
      select_tech db q = Inr (folded_search rows q))"
proof (intro conjI impI)
  assume "rows \<noteq> [] \<and> 50000 < utf8_bytes q + 2"
  then show "select_tech db q = Inl (OperationalError ''LIKE or GLOB pattern too complex'')"
    using select_tech_beyond [OF assms] by blast
next
  assume "rows = []"
  then show "select_tech db q = Inr []" using assms by (simp add: select_tech_def)
next
  assume h: "utf8_bytes q + 2 \<le> 50000 \<and> CHR 0x00 \<notin> set q"
  then have c: "c_string (''%'' @ q @ ''%'') = ''%'' @ q @ ''%''"
    by (simp only: c_string_pattern if_False)
  show "select_tech db q =
        Inr (map projection
          (filter (\<lambda>(name, description, url).
              (\<exists>pre mid suf. c_string name = pre @ mid @ suf \<and> matches q mid) \<or>
              (\<exists>pre mid suf. c_string description = pre @ mid @ suf \<and> matches q mid))
            rows))"
    using h by (simp only: select_tech_within [OF assms] c matches_infix)
next
  assume h: "utf8_bytes q + 2 \<le> 50000 \<and> CHR 0x00 \<in> set q"
  then have c: "c_string (''%'' @ q @ ''%'') = CHR ''%'' # c_string q"
    by (simp only: c_string_pattern if_True)
  show "select_tech db q =
        Inr (map projection
          (filter (\<lambda>(name, description, url).
              (\<exists>pre mid. c_string name = pre @ mid \<and> matches (c_string q) mid) \<or>
              (\<exists>pre mid. c_string description = pre @ mid \<and> matches (c_string q) mid))
            rows))"
    using h by (simp only: select_tech_within [OF assms] c matches_suffix)
next
  assume h: "utf8_bytes q + 2 \<le> 50000 \<and> CHR 0x00 \<notin> set q \<and> wildcard_free q"
  then have c: "c_string (''%'' @ q @ ''%'') = ''%'' @ q @ ''%''"
    by (simp only: c_string_pattern if_False)
  from h have w: "wildcard_free q" by blast
  show "select_tech db q = Inr (folded_search rows q)"
    using h by (simp only: select_tech_within [OF assms] c matches_folded [OF w] folded_search_def)
qed

theorem knowledge_search_like_witness:
  "tech seeded = Some HEALTHCARE_TECH \<and> HEALTHCARE_TECH \<noteq> [] \<and>
   utf8_bytes ''emr'' + 2 \<le> 50000 \<and> CHR 0x00 \<notin> set ''emr'' \<and> wildcard_free ''emr'' \<and>
   select_tech seeded ''emr'' = Inr (folded_search HEALTHCARE_TECH ''emr'') \<and>
   folded_search HEALTHCARE_TECH ''emr'' =
     [(''OpenMRS'', ''Customizable EMR system.''),
      (''OpenEMR'', ''Open-source EHR and practice management.'')] \<and>
   50000 < utf8_bytes (replicate 49999 CHR ''a'') + 2 \<and>
   select_tech seeded (replicate 49999 CHR ''a'') =
     Inl (OperationalError ''LIKE or GLOB pattern too complex'') \<and>
   utf8_bytes (CHR 0x00 # ''zz'') + 2 \<le> 50000 \<and> CHR 0x00 \<in> set (CHR 0x00 # ''zz'') \<and>
   select_tech seeded (CHR 0x00 # ''zz'') = Inr (map projection HEALTHCARE_TECH)"
proof -
  have t: "tech seeded = Some HEALTHCARE_TECH" by (simp add: seeded_def)
  have r: "HEALTHCARE_TECH \<noteq> []" by (simp add: HEALTHCARE_TECH_def)
  have n: "utf8_bytes ''emr'' + 2 \<le> 50000" by (simp add: utf8_bytes_def)
  have z: "CHR 0x00 \<notin> set ''emr''" by simp
  have w: "wildcard_free ''emr''" by (simp add: wildcard_free_def)
  have f: "folded_search HEALTHCARE_TECH ''emr'' =
     [(''OpenMRS'', ''Customizable EMR system.''),
      (''OpenEMR'', ''Open-source EHR and practice management.'')]"
    by code_simp
  have l: "50000 < utf8_bytes (replicate 49999 CHR ''a'') + 2"
    by (simp add: utf8_bytes_replicate)
  have "select_tech seeded ''emr'' = Inr (folded_search HEALTHCARE_TECH ''emr'')"
    using knowledge_search_like [OF t, of "''emr''"] n z w by blast
  moreover have "select_tech seeded (replicate 49999 CHR ''a'') =
     Inl (OperationalError ''LIKE or GLOB pattern too complex'')"
    using knowledge_search_like [OF t, of "replicate 49999 CHR ''a''"] r l by blast
  moreover have "utf8_bytes (CHR 0x00 # ''zz'') + 2 \<le> 50000"
    by (simp add: utf8_bytes_def)
  moreover have "select_tech seeded (CHR 0x00 # ''zz'') = Inr (map projection HEALTHCARE_TECH)"
    using knowledge_search_like [OF t, of "CHR 0x00 # ''zz''"]
    by (simp add: utf8_bytes_def c_string_def)
  ultimately show ?thesis using t r n z w f l by simp
qed

text \<open>
  C7 (format of a knowledge hit): when the prompt misses the cache and the search returns
  the non-empty list \<open>rs\<close>, every response the request returns is, with status 200, the
  texts \<open>name: description\<close> of the records of \<open>rs\<close>, in the order of \<open>rs\<close>, joined
  by a line break; and the request does return it when the database can be written.
\<close>

theorem knowledge_hit_format:
  assumes "p \<noteq> []" "select_response (connect fs) p = Inr None"
    "select_tech (connect fs) p = Inr rs" "rs \<noteq> []"
  shows "(\<not> read_only (connect fs) \<longrightarrow>
      result (ask completion fs (Some p)) =
        Returned 200 (ResponseBody
          (join [CHR 0x0A] (map (\<lambda>(name, description). name @ '': '' @ description) rs)))) \<and>
    (\<forall>status b. result (ask completion fs (Some p)) = Returned status b \<longrightarrow>
      status = 200 \<and> b = ResponseBody
          (join [CHR 0x0A] (map (\<lambda>(name, description). name @ '': '' @ description) rs)))"
proof (cases "read_only (connect fs)")
  case True
  then show ?thesis
    by (simp add: ask_miss_known [OF assms] persist_def result_def
        insert_cache_read_only [OF assms(2)])
next
  case False
  then show ?thesis
    using insert_cache_ok [OF assms(2) False, of "format_results rs"]
    by (auto simp: ask_miss_known [OF assms] persist_def result_def format_results_def)
qed

theorem knowledge_hit_format_witness:
  "''EMR'' \<noteq> [] \<and> select_response (connect (Some seeded)) ''EMR'' = Inr None \<and>
   select_tech (connect (Some seeded)) ''EMR'' =
     Inr [(''OpenMRS'', ''Customizable EMR system.''),
          (''OpenEMR'', ''Open-source EHR and practice management.'')] \<and>
   \<not> read_only (connect (Some seeded)) \<and>
   result (ask answering (Some seeded) (Some ''EMR'')) =
     Returned 200 (ResponseBody
       ''OpenMRS: Customizable EMR system.\<newline>OpenEMR: Open-source EHR and practice management.'')"
proof -
  have n: "''EMR'' \<noteq> []" by simp
  have r: "[(''OpenMRS'', ''Customizable EMR system.''),
      (''OpenEMR'', ''Open-source EHR and practice management.'')] \<noteq> []" by simp
  note k = knowledge_hit_format [OF n seeded_miss seeded_EMR r, of answering]
  have "result (ask answering (Some seeded) (Some ''EMR'')) =
     Returned 200 (ResponseBody (format_results
       [(''OpenMRS'', ''Customizable EMR system.''),
        (''OpenEMR'', ''Open-source EHR and practice management.'')]))"
    using k seeded_writable unfolding format_results_def by blast
  then show ?thesis using n seeded_miss seeded_EMR seeded_writable by (simp only: format_EMR) blast
qed

subsection \<open>Failures\<close>



text \<open>
  C6, as the specification states it: a failing read of the store counts as a cache miss
  and the resolution goes on, and a failing write does not keep the computed response
  from the caller. Neither holds: with the file missing at the time of the request the
  lookup raises and the request ends there, after the lookup alone; on a database that
  cannot be written the request for \<open>EMR\<close>, whose response is computed from two
  records, ends with the error of the write.
\<close>

theorem storage_error_counterexample:
  "result (ask answering None (Some ''EMR'')) =
     Raised (OperationalError ''no such table: cache'') \<and>
   events (ask answering None (Some ''EMR'')) = [CacheLookup ''EMR''] \<and>
   result (ask answering (Some write_protected) (Some ''EMR'')) =
     Raised (OperationalError ''attempt to write a readonly database'')"
proof -
  have n: "''EMR'' \<noteq> []" by simp
  have a: "ask answering None (Some ''EMR'') =
    (Raised (OperationalError ''no such table: cache''),
     Some \<lparr>cache = None, tech = None, read_only = False\<rparr>, [CacheLookup ''EMR''])"
    by (simp add: ask_unfold [OF n] connect_def select_response_def)
  have b: "result (ask answering (Some write_protected) (Some ''EMR'')) =
     Raised (OperationalError ''attempt to write a readonly database'')"
    using ask_miss_known [OF n protected_miss protected_EMR, of answering]
      insert_cache_read_only [OF protected_miss protected_read_only]
    by (simp add: persist_def result_def)
  show ?thesis using a b by (simp add: result_def events_def)
qed

text \<open>
  C6, amended: \<open>ask\<close> handles no storage error. For a non-empty prompt, an error of the
  cache lookup, of the knowledge search or of the cache write leaves the handler as the
  exception it is: the request returns no response, not even the one it has computed
  before a failing write, and nothing is run after the failing statement.
\<close>

theorem storage_errors_propagate:
  assumes "p \<noteq> []"
  shows "(select_response (connect fs) p = Inl e \<longrightarrow>
      ask completion fs (Some p) = (Raised e, Some (connect fs), [CacheLookup p])) \<and>
    (select_response (connect fs) p = Inr None \<and> select_tech (connect fs) p = Inl e \<longrightarrow>
      ask completion fs (Some p) =
        (Raised e, Some (connect fs), [CacheLookup p, KnowledgeSearch p])) \<and>
    (select_response (connect fs) p = Inr None \<and> select_tech (connect fs) p = Inr rs \<and>
     insert_cache (connect fs) p
       (if rs \<noteq> [] then format_results rs else generate completion p) = Inl e \<longrightarrow>
      result (ask completion fs (Some p)) = Raised e \<and>
      file_after (ask completion fs (Some p)) = Some (connect fs))"
  using assms by (auto simp: ask_def falsy_def persist_def result_def file_after_def)

theorem storage_errors_propagate_witness:
  "''EMR'' \<noteq> [] \<and>
   select_response (connect None) ''EMR'' = Inl (OperationalError ''no such table: cache'') \<and>
   ask answering None (Some ''EMR'') =
     (Raised (OperationalError ''no such table: cache''), Some (connect None),
      [CacheLookup ''EMR'']) \<and>
   select_response (connect (Some without_tech)) ''EMR'' = Inr None \<and>
   select_tech (connect (Some without_tech)) ''EMR'' =
     Inl (OperationalError ''no such table: tech'') \<and>
   ask answering (Some without_tech) (Some ''EMR'') =
     (Raised (OperationalError ''no such table: tech''), Some (connect (Some without_tech)),
      [CacheLookup ''EMR'', KnowledgeSearch ''EMR'']) \<and>
   select_response (connect (Some write_protected)) ''EMR'' = Inr None \<and>
   select_tech (connect (Some write_protected)) ''EMR'' =
     Inr [(''OpenMRS'', ''Customizable EMR system.''),
          (''OpenEMR'', ''Open-source EHR and practice management.'')] \<and>
   insert_cache (connect (Some write_protected)) ''EMR''
     ''OpenMRS: Customizable EMR system.\<newline>OpenEMR: Open-source EHR and practice management.'' =
     Inl (OperationalError ''attempt to write a readonly database'') \<and>
   result (ask answering (Some write_protected) (Some ''EMR'')) =
     Raised (OperationalError ''attempt to write a readonly database'') \<and>
   file_after (ask answering (Some write_protected) (Some ''EMR'')) =
     Some (connect (Some write_protected))"
proof -
  have n: "''EMR'' \<noteq> []" by simp
  have a: "select_response (connect None) ''EMR'' =
      Inl (OperationalError ''no such table: cache'')"
    by (simp add: connect_def select_response_def)
  have b: "select_response (connect (Some without_tech)) ''EMR'' = Inr None"
    by (simp add: connect_def select_response_def without_tech_def)
  have c: "select_tech (connect (Some without_tech)) ''EMR'' =
      Inl (OperationalError ''no such table: tech'')"
    by (simp add: connect_def select_tech_def without_tech_def)
  have d: "insert_cache (connect (Some write_protected)) ''EMR''
     (if [(''OpenMRS'', ''Customizable EMR system.''),
          (''OpenEMR'', ''Open-source EHR and practice management.'')] \<noteq> []
      then format_results
         [(''OpenMRS'', ''Customizable EMR system.''),
          (''OpenEMR'', ''Open-source EHR and practice management.'')]
      else generate answering ''EMR'') =
     Inl (OperationalError ''attempt to write a readonly database'')"
    by (rule insert_cache_read_only [OF protected_miss protected_read_only])
  have d': "insert_cache (connect (Some write_protected)) ''EMR''
     ''OpenMRS: Customizable EMR system.\<newline>OpenEMR: Open-source EHR and practice management.'' =
     Inl (OperationalError ''attempt to write a readonly database'')"
    by (rule insert_cache_read_only [OF protected_miss protected_read_only])
  note k = storage_errors_propagate [OF n]
  have "ask answering None (Some ''EMR'') =
     (Raised (OperationalError ''no such table: cache''), Some (connect None),
      [CacheLookup ''EMR''])"
    using k [of None] a by blast
  moreover have "ask answering (Some without_tech) (Some ''EMR'') =
     (Raised (OperationalError ''no such table: tech''), Some (connect (Some without_tech)),
      [CacheLookup ''EMR'', KnowledgeSearch ''EMR''])"
    using k [of "Some without_tech"] b c by blast
  moreover have "result (ask answering (Some write_protected) (Some ''EMR'')) =
       Raised (OperationalError ''attempt to write a readonly database'') \<and>
     file_after (ask answering (Some write_protected) (Some ''EMR'')) =
       Some (connect (Some write_protected))"
    using k [of "Some write_protected"] protected_miss [of "''EMR''"] protected_EMR d by blast
  ultimately show ?thesis using n a b c d' protected_miss [of "''EMR''"] protected_EMR by blast
qed

text \<open>
  C10 (empty prompt): a request whose prompt is the empty string gets what a request
  without a prompt gets: status 400 with the error \<open>Prompt is required\<close>; nothing is run on
  the database, no completion call is made, and the file is as before.
\<close>

theorem empty_prompt_rejected:
  "ask completion fs (Some '''') = (Returned 400 (ErrorBody ''Prompt is required''), fs, []) \<and>
   ask completion fs (Some '''') = ask completion fs None"
  by (simp add: ask_def falsy_def)

subsection \<open>The image classifier\<close>

text \<open>
  C8, as the specification states it: every decodable image gets exactly one label of the
  fixed set. It fails for an upload without a file name: \<open>not file\<close> holds for it, and
  the handler answers 400 before it looks at the bytes, although they are an image.
\<close>

theorem autotag_counterexample:
  "stub_open (stream unnamed_upload) = Inr [255, 0, 0] \<and>
   autotag stub_open stub_clip stub_softmax (Some unnamed_upload) =
     Returned 400 (ErrorBody ''No image uploaded.'')"
  by (simp add: autotag_def no_file_def unnamed_upload_def stub_open_def)

text \<open>
  C8, amended: an upload without a file name is answered 400 \<open>No image uploaded.\<close>,
  whatever its bytes. For an upload with a file name whose bytes decode to an image, and a
  model and softmax that give the four probabilities, \<open>autotag\<close> returns status 200 with
  exactly one label, a member of the four fixed labels: the one whose probability, as the
  softmax computed it, is greatest among the four, and strictly greater than that of
  every label before it in the fixed order, so of several greatest ones the first is taken.
\<close>

theorem autotag_label:
  "(filename f = [] \<longrightarrow>
      autotag image_open clip softmax (Some f) = Returned 400 (ErrorBody ''No image uploaded.'')) \<and>
   (filename f \<noteq> [] \<and> image_open (stream f) = Inr img \<and> clip img = Inr logits \<and>
    length (softmax logits) = 4 \<longrightarrow>
      (\<exists>i<4. autotag image_open clip softmax (Some f) = Returned 200 (LabelBody (tags ! i)) \<and>
         tags ! i \<in> {''robot'', ''sensor'', ''healthcare'', ''technology''} \<and>
         (\<forall>j<4. softmax logits ! j \<le> softmax logits ! i) \<and>
         (\<forall>j<i. softmax logits ! j < softmax logits ! i)))"
proof (intro conjI impI)
  assume "filename f = []"
  then show "autotag image_open clip softmax (Some f) =
      Returned 400 (ErrorBody ''No image uploaded.'')"
    by (simp add: autotag_def no_file_def)
next
  assume h: "filename f \<noteq> [] \<and> image_open (stream f) = Inr img \<and> clip img = Inr logits \<and>
    length (softmax logits) = 4"
  then have "softmax logits \<noteq> []" by auto
  then obtain i where i: "argmax (softmax logits) = Some i" "i < length (softmax logits)"
    "\<forall>j<length (softmax logits). softmax logits ! j \<le> softmax logits ! i"
    "\<forall>j<i. softmax logits ! j < softmax logits ! i"
    using argmax_spec by blast
  have i4: "i < 4" using i(2) h by simp
  have "autotag image_open clip softmax (Some f) = Returned 200 (LabelBody (tags ! i))"
    using h i(1) i4 by (simp add: autotag_def no_file_def tags_def)
  moreover have "tags ! i \<in> {''robot'', ''sensor'', ''healthcare'', ''technology''}"
    using i4 by (auto simp: tags_def less_Suc_eq numeral_eq_Suc)
  ultimately show "\<exists>i<4. autotag image_open clip softmax (Some f) =
         Returned 200 (LabelBody (tags ! i)) \<and>
       tags ! i \<in> {''robot'', ''sensor'', ''healthcare'', ''technology''} \<and>
       (\<forall>j<4. softmax logits ! j \<le> softmax logits ! i) \<and>
       (\<forall>j<i. softmax logits ! j < softmax logits ! i)"
    using i(3,4) i4 h by auto
qed

theorem autotag_label_witness:
  "filename unnamed_upload = [] \<and>
   autotag stub_open stub_clip stub_softmax (Some unnamed_upload) =
     Returned 400 (ErrorBody ''No image uploaded.'') \<and>
   filename named_upload \<noteq> [] \<and> stub_open (stream named_upload) = Inr [255, 0, 0] \<and>
   stub_clip [255, 0, 0] = Inr [0, 1 / 1000000000, 0, 0] \<and>
   length (stub_softmax [0, 1 / 1000000000, 0, 0]) = 4 \<and>
   (\<exists>i<4. autotag stub_open stub_clip stub_softmax (Some named_upload) =
        Returned 200 (LabelBody (tags ! i)) \<and>
      tags ! i \<in> {''robot'', ''sensor'', ''healthcare'', ''technology''} \<and>
      (\<forall>j<4. stub_softmax [0, 1 / 1000000000, 0, 0] ! j
         \<le> stub_softmax [0, 1 / 1000000000, 0, 0] ! i) \<and>
      (\<forall>j<i. stub_softmax [0, 1 / 1000000000, 0, 0] ! j
         < stub_softmax [0, 1 / 1000000000, 0, 0] ! i)) \<and>
   autotag stub_open stub_clip stub_softmax (Some named_upload) =
     Returned 200 (LabelBody ''robot'')"
proof -
  have u: "filename unnamed_upload = []" by (simp add: unnamed_upload_def)
  have f: "filename named_upload \<noteq> []" by (simp add: named_upload_def)
  have d: "stub_open (stream named_upload) = Inr [255, 0, 0]"
    by (simp add: named_upload_def stub_open_def)
  have c: "stub_clip [255, 0, 0] = Inr [0, 1 / 1000000000, 0, 0]" by (simp add: stub_clip_def)
  have l: "length (stub_softmax [0, 1 / 1000000000, 0, 0]) = 4" by (simp add: stub_softmax_def)
  have a: "autotag stub_open stub_clip stub_softmax (Some unnamed_upload) =
     Returned 400 (ErrorBody ''No image uploaded.'')"
    using autotag_label [where f = unnamed_upload and image_open = stub_open
        and clip = stub_clip and softmax = stub_softmax] u
    by blast
  have b: "\<exists>i<4. autotag stub_open stub_clip stub_softmax (Some named_upload) =
        Returned 200 (LabelBody (tags ! i)) \<and>
      tags ! i \<in> {''robot'', ''sensor'', ''healthcare'', ''technology''} \<and>
      (\<forall>j<4. stub_softmax [0, 1 / 1000000000, 0, 0] ! j
         \<le> stub_softmax [0, 1 / 1000000000, 0, 0] ! i) \<and>
      (\<forall>j<i. stub_softmax [0, 1 / 1000000000, 0, 0] ! j
         < stub_softmax [0, 1 / 1000000000, 0, 0] ! i)"
    using autotag_label [where f = named_upload and image_open = stub_open
        and clip = stub_clip and softmax = stub_softmax and img = "[255, 0, 0]"
        and logits = "[0, 1 / 1000000000, 0, 0]"] f d c l
    by blast
  have e: "autotag stub_open stub_clip stub_softmax (Some named_upload) =
      Returned 200 (LabelBody ''robot'')"
    by (simp add: autotag_def no_file_def named_upload_def stub_open_def stub_clip_def
        stub_softmax_def argmax_def tags_def numeral_eq_Suc)
  show ?thesis using u a f d c l b e by blast
qed

end
